theory Spec2Isabelle
  imports Main "HOL-Library.AList" "HOL-Library.Sublist"
begin

section \<open>The session daemon of chrome-cli (src/cli.ts)\<close>

text \<open>
  The daemon keeps one record of mutable state (\<open>SessionState\<close>, cli.ts lines 356-370)
  and changes it in the HTTP handlers, in \<open>launchBrowser\<close>, in \<open>getOrCreatePage\<close> and in
  the listeners that \<open>getOrCreatePage\<close> installs on a page. Every handler is modelled
  as a function from the state before it runs to the state after it and its response.
  Whatever the handler obtains from the browser or the clock (whether a connection
  attempt succeeds, whether a page answers the validity probe, what \<open>Date.now()\<close>
  returns, whether a remote call throws) is read from a record \<open>env\<close>, given anew for
  each handler run. A handler body is one atomic step: the interleaving of two handlers
  at an \<open>await\<close> is outside the model.
\<close>

subsection \<open>Data\<close>

text \<open>A puppeteer \<open>Page\<close> object, by identity.\<close>

type_synonym page = nat

text \<open>Entries of the two capture buffers (cli.ts lines 360-361).\<close>

record console_message =
  msg_type :: string
  msg_text :: string
  msg_timestamp :: nat

record network_request =
  req_url :: string
  req_method :: string
  req_status :: nat
  req_type :: string

text \<open>
  The three event classes a listener is registered for with \<open>page.on\<close>
  (cli.ts lines 484, 490, 496).
\<close>

datatype event_kind = OnConsole | OnRequest | OnResponse

text \<open>
  \<open>SessionState\<close>. A JavaScript \<open>Map\<close> iterates in insertion order, and \<open>close-page\<close>
  reads the first key, so each map is an association list: \<open>Map.set\<close> is
  \<open>AList.update\<close> (replace in place, or append at the end), \<open>Map.delete\<close> is
  \<open>AList.delete\<close>, \<open>Map.get\<close> is \<open>map_of\<close>. The field \<open>browser\<close> holds whether
  \<open>state.browser\<close> is non-null. The field \<open>listeners\<close> is not part of \<open>SessionState\<close>:
  it is the list of closures registered with \<open>page.on\<close>, each with the page it is
  registered on, its event class and the \<open>newPageId\<close> it has captured.
\<close>

record session_state =
  browser :: bool
  pages :: "(string \<times> page) list"
  currentPageId :: "string option"
  consoleMessages :: "(string \<times> console_message list) list"
  networkRequests :: "(string \<times> network_request list) list"
  listeners :: "(page \<times> event_kind \<times> string) list"

definition initial_state :: session_state where
  "initial_state =
     \<lparr>browser = False, pages = [], currentPageId = None,
      consoleMessages = [], networkRequests = [], listeners = []\<rparr>"

text \<open>What one handler run observes of the browser and the clock.\<close>

record env =
  connect :: "nat \<Rightarrow> bool"
  isPageValid :: "page \<Rightarrow> bool"
  browser_pages :: "(page \<times> string) list option"
  newPage :: "page option"
  now :: nat
  page_close :: "page \<Rightarrow> bool"
  goto_ok :: bool
  bringToFront_ok :: bool
  page_op_ok :: bool

text \<open>The exceptions a handler can catch, by the call that threw.\<close>

datatype error =
  ConnectFailed | BrowserPagesFailed | NewPageFailed | GotoFailed
  | CloseFailed | BringToFrontFailed | PageOpFailed

text \<open>
  Responses: \<open>PageOk id\<close> is \<open>{success: true, pageId: id, ...}\<close>, \<open>CloseOk\<close> is
  \<open>{success: true}\<close>, \<open>ConsoleOk\<close> and \<open>NetworkOk\<close> carry the \<open>pageId\<close> and the list
  returned, \<open>NotFound\<close> is status 404 with \<open>{success: false, error: 'Page not found'}\<close>
  and \<open>Failed e\<close> is status 500 with \<open>{success: false, error: String(err)}\<close>.
\<close>

datatype response =
  PageOk string
  | CloseOk
  | ConsoleOk "string option" "console_message list"
  | NetworkOk "string option" "network_request list"
  | NotFound
  | Failed error

subsection \<open>JavaScript truthiness of an optional string\<close>

text \<open>\<open>undefined\<close>, \<open>null\<close> and the empty string are falsy.\<close>

fun truthy :: "string option \<Rightarrow> bool" where
  "truthy None = False"
| "truthy (Some x) = (x \<noteq> [])"

definition js_or :: "string option \<Rightarrow> string option \<Rightarrow> string option" where
  "js_or a b = (if truthy a then a else b)"

subsection \<open>Page identifiers\<close>

text \<open>\<open>`page_${Date.now()}`\<close> (cli.ts lines 477 and 628): the decimal digits of the clock.\<close>

definition digit_char :: "nat \<Rightarrow> char" where
  "digit_char d = ''0123456789'' ! d"

fun string_of_nat :: "nat \<Rightarrow> string" where
  "string_of_nat n =
     (if n < 10 then [digit_char n]
      else string_of_nat (n div 10) @ [digit_char (n mod 10)])"

declare string_of_nat.simps [simp del]

definition page_id :: "nat \<Rightarrow> string" where
  "page_id t = ''page_'' @ string_of_nat t"

subsection \<open>launchBrowser (cli.ts lines 409-439)\<close>

text \<open>
  At most two connection attempts, \<open>connect e 0\<close> and \<open>connect e 1\<close>, with Chrome
  started in between (taken not to throw); when both fail the function throws and
  \<open>state.browser\<close> stays null.
\<close>

definition launchBrowser :: "env \<Rightarrow> session_state \<Rightarrow> error + session_state" where
  "launchBrowser e s =
     (if browser s then Inr s
      else if connect e 0 then Inr (s\<lparr>browser := True\<rparr>)
      else if connect e 1 then Inr (s\<lparr>browser := True\<rparr>)
      else Inl ConnectFailed)"

text \<open>The \<open>disconnected\<close> listener (lines 432-436).\<close>

definition on_disconnected :: "session_state \<Rightarrow> session_state" where
  "on_disconnected s = s\<lparr>browser := False, pages := [], currentPageId := None\<rparr>"

subsection \<open>getOrCreatePage (cli.ts lines 450-503)\<close>

definition reusable :: "string \<Rightarrow> bool" where
  "reusable url =
     (url = ''about:blank'' \<or> url = ''chrome://newtab/'' \<or> prefix ''chrome://newtab'' url)"

text \<open>
  Lines 470-502: reuse a blank tab or open one, register it under a fresh identifier,
  make it current, create its two buffers and install the three listeners.
\<close>

definition create_page ::
  "env \<Rightarrow> session_state \<Rightarrow> session_state \<times> (error + page \<times> string)" where
  "create_page e s =
     (case browser_pages e of
        None \<Rightarrow> (s, Inl BrowserPagesFailed)
      | Some existingPages \<Rightarrow>
          (case (case find (\<lambda>p. reusable (snd p)) existingPages of
                   Some p \<Rightarrow> Some (fst p)
                 | None \<Rightarrow> newPage e) of
             None \<Rightarrow> (s, Inl NewPageFailed)
           | Some page \<Rightarrow>
               (let newPageId = page_id (now e) in
                (s\<lparr>pages := AList.update newPageId page (pages s),
                   currentPageId := Some newPageId,
                   consoleMessages := AList.update newPageId [] (consoleMessages s),
                   networkRequests := AList.update newPageId [] (networkRequests s),
                   listeners := listeners s @
                     [(page, OnConsole, newPageId), (page, OnRequest, newPageId),
                      (page, OnResponse, newPageId)]\<rparr>,
                 Inr (page, newPageId)))))"

text \<open>
  The test \<open>id && state.pages.has(id)\<close> together with \<open>state.pages.get(id)\<close>
  (lines 453-454, 461-462 and 649-650).
\<close>

definition registered :: "string option \<Rightarrow> session_state \<Rightarrow> (string \<times> page) option" where
  "registered ident s =
     (case ident of
        None \<Rightarrow> None
      | Some i \<Rightarrow> if i = [] then None else map_option (Pair i) (map_of (pages s) i))"

text \<open>Lines 461-468, followed by the creation.\<close>

definition resolve_current ::
  "env \<Rightarrow> session_state \<Rightarrow> session_state \<times> (error + page \<times> string)" where
  "resolve_current e s =
     (case registered (currentPageId s) s of
        Some (cur, page) \<Rightarrow>
          (if isPageValid e page then (s, Inr (page, cur))
           else create_page e
                  (s\<lparr>pages := AList.delete cur (pages s), currentPageId := None\<rparr>))
      | None \<Rightarrow> create_page e s)"

text \<open>
  The whole function: line 451, then lines 453-459 for the explicit identifier, then the
  rest. An exception leaves the state as it was changed up to the throw.
\<close>

definition getOrCreatePage ::
  "env \<Rightarrow> string option \<Rightarrow> session_state \<Rightarrow> session_state \<times> (error + page \<times> string)" where
  "getOrCreatePage e pageId s =
     (case launchBrowser e s of
        Inl err \<Rightarrow> (s, Inl err)
      | Inr s0 \<Rightarrow>
          (case registered pageId s0 of
             Some (pid, page) \<Rightarrow>
               (if isPageValid e page then (s0, Inr (page, pid))
                else resolve_current e (s0\<lparr>pages := AList.delete pid (pages s0)\<rparr>))
           | None \<Rightarrow> resolve_current e s0))"

subsection \<open>The listeners installed by getOrCreatePage (cli.ts lines 484-500)\<close>

text \<open>\<open>push\<close>, then \<open>shift\<close> when the array has grown beyond 1000 entries.\<close>

definition push_shift :: "'a list \<Rightarrow> 'a \<Rightarrow> 'a list" where
  "push_shift xs x = (let ys = xs @ [x] in if length ys > 1000 then tl ys else ys)"

text \<open>
  Each listener reads its buffer with \<open>get(newPageId) || []\<close>: when \<open>close-page\<close> has
  deleted the buffer, it works on a fresh array that nothing refers to, and the state
  does not change. Otherwise it mutates the array held by the map.
\<close>

definition on_console :: "string \<Rightarrow> console_message \<Rightarrow> session_state \<Rightarrow> session_state" where
  "on_console newPageId msg s =
     (case map_of (consoleMessages s) newPageId of
        None \<Rightarrow> s
      | Some messages \<Rightarrow>
          s\<lparr>consoleMessages :=
              AList.update newPageId (push_shift messages msg) (consoleMessages s)\<rparr>)"

definition on_request :: "string \<Rightarrow> network_request \<Rightarrow> session_state \<Rightarrow> session_state" where
  "on_request newPageId req s =
     (case map_of (networkRequests s) newPageId of
        None \<Rightarrow> s
      | Some requests \<Rightarrow>
          s\<lparr>networkRequests :=
              AList.update newPageId (push_shift requests req) (networkRequests s)\<rparr>)"

text \<open>
  \<open>requests.find(r => r.url === res.url() && r.status === 0)\<close>, as the index of the
  record found, and the assignment to its \<open>status\<close>.
\<close>

definition pending :: "string \<Rightarrow> network_request \<Rightarrow> bool" where
  "pending u r = (req_url r = u \<and> req_status r = 0)"

fun find_pending :: "string \<Rightarrow> network_request list \<Rightarrow> nat option" where
  "find_pending u [] = None"
| "find_pending u (r # rs) =
     (if pending u r then Some 0 else map_option Suc (find_pending u rs))"

definition set_status :: "string \<Rightarrow> nat \<Rightarrow> network_request list \<Rightarrow> network_request list" where
  "set_status u st requests =
     (case find_pending u requests of
        None \<Rightarrow> requests
      | Some i \<Rightarrow> requests[i := (requests ! i)\<lparr>req_status := st\<rparr>])"

definition on_response :: "string \<Rightarrow> string \<Rightarrow> nat \<Rightarrow> session_state \<Rightarrow> session_state" where
  "on_response newPageId u st s =
     (case map_of (networkRequests s) newPageId of
        None \<Rightarrow> s
      | Some requests \<Rightarrow>
          s\<lparr>networkRequests :=
              AList.update newPageId (set_status u st requests) (networkRequests s)\<rparr>)"

text \<open>
  What a page emits. A console event carries \<open>msg.type()\<close> and \<open>msg.text()\<close>, and the
  listener adds \<open>Date.now()\<close>; a request event carries \<open>req.url()\<close>, \<open>req.method()\<close>
  and \<open>req.resourceType()\<close>, and the listener stores it with status 0; a response
  event carries \<open>res.url()\<close> and \<open>res.status()\<close>.
\<close>

datatype page_event =
  ConsoleEvent string string
  | RequestEvent string string string
  | ResponseEvent string nat

fun kind_of :: "page_event \<Rightarrow> event_kind" where
  "kind_of (ConsoleEvent _ _) = OnConsole"
| "kind_of (RequestEvent _ _ _) = OnRequest"
| "kind_of (ResponseEvent _ _) = OnResponse"

fun run_listener :: "env \<Rightarrow> page_event \<Rightarrow> string \<Rightarrow> session_state \<Rightarrow> session_state" where
  "run_listener e (ConsoleEvent ty txt) newPageId s =
     on_console newPageId \<lparr>msg_type = ty, msg_text = txt, msg_timestamp = now e\<rparr> s"
| "run_listener e (RequestEvent u m ty) newPageId s =
     on_request newPageId \<lparr>req_url = u, req_method = m, req_status = 0, req_type = ty\<rparr> s"
| "run_listener e (ResponseEvent u st) newPageId s = on_response newPageId u st s"

text \<open>
  The page \<open>p\<close> emits \<open>ev\<close>: every listener registered on \<open>p\<close> for that event class
  runs, in registration order.
\<close>

definition emit :: "env \<Rightarrow> page \<Rightarrow> page_event \<Rightarrow> session_state \<Rightarrow> session_state" where
  "emit e p ev s =
     fold (\<lambda>l. run_listener e ev (snd (snd l)))
       (filter (\<lambda>l. fst l = p \<and> fst (snd l) = kind_of ev) (listeners s)) s"

subsection \<open>The handlers\<close>

text \<open>
  \<open>/navigate\<close>, \<open>/screenshot\<close>, \<open>/click\<close>, \<open>/fill\<close>, \<open>/evaluate\<close>, \<open>/wait\<close> and
  \<open>/snapshot\<close> (lines 512-567, 667-722) all call \<open>getOrCreatePage()\<close> with no argument
  and then one operation of the page, which changes nothing in the session state.
\<close>

definition page_command :: "env \<Rightarrow> session_state \<Rightarrow> session_state \<times> response" where
  "page_command e s =
     (case getOrCreatePage e None s of
        (s', Inl err) \<Rightarrow> (s', Failed err)
      | (s', Inr (page, pageId)) \<Rightarrow>
          if page_op_ok e then (s', PageOk pageId) else (s', Failed PageOpFailed))"

text \<open>\<open>/console\<close> and \<open>/network\<close> (lines 569-589).\<close>

definition get_console :: "string option \<Rightarrow> session_state \<Rightarrow> session_state \<times> response" where
  "get_console pageId s =
     (let ident = js_or pageId (currentPageId s);
          messages =
            (if truthy ident
             then (case map_of (consoleMessages s) (the ident) of
                     Some m \<Rightarrow> m
                   | None \<Rightarrow> [])
             else [])
      in (s, ConsoleOk ident messages))"

definition get_network :: "string option \<Rightarrow> session_state \<Rightarrow> session_state \<times> response" where
  "get_network pageId s =
     (let ident = js_or pageId (currentPageId s);
          requests =
            (if truthy ident
             then (case map_of (networkRequests s) (the ident) of
                     Some r \<Rightarrow> r
                   | None \<Rightarrow> [])
             else [])
      in (s, NetworkOk ident requests))"

text \<open>\<open>/select-page\<close> (lines 607-621); \<open>has(undefined)\<close> is false.\<close>

definition select_page ::
  "env \<Rightarrow> string option \<Rightarrow> session_state \<Rightarrow> session_state \<times> response" where
  "select_page e pageId s =
     (case pageId of
        None \<Rightarrow> (s, NotFound)
      | Some pid \<Rightarrow>
          (case map_of (pages s) pid of
             None \<Rightarrow> (s, NotFound)
           | Some page \<Rightarrow>
               (let s' = s\<lparr>currentPageId := Some pid\<rparr> in
                if bringToFront_ok e then (s', PageOk pid)
                else (s', Failed BringToFrontFailed))))"

text \<open>\<open>/new-page\<close> (lines 623-643).\<close>

definition new_page ::
  "env \<Rightarrow> string option \<Rightarrow> session_state \<Rightarrow> session_state \<times> response" where
  "new_page e url s =
     (case launchBrowser e s of
        Inl err \<Rightarrow> (s, Failed err)
      | Inr s0 \<Rightarrow>
          (case newPage e of
             None \<Rightarrow> (s0, Failed NewPageFailed)
           | Some page \<Rightarrow>
               (let pageId = page_id (now e);
                    s1 = s0\<lparr>pages := AList.update pageId page (pages s0),
                           currentPageId := Some pageId,
                           consoleMessages := AList.update pageId [] (consoleMessages s0),
                           networkRequests := AList.update pageId [] (networkRequests s0)\<rparr>
                in if truthy url \<and> \<not> goto_ok e then (s1, Failed GotoFailed)
                   else (s1, PageOk pageId))))"

text \<open>
  \<open>/close-page\<close> (lines 645-665). \<open>state.pages.keys().next().value || null\<close> is the
  first key in insertion order, or null.
\<close>

definition first_key :: "(string \<times> page) list \<Rightarrow> string option" where
  "first_key ps = (case ps of [] \<Rightarrow> None | p # _ \<Rightarrow> js_or (Some (fst p)) None)"

definition close_page ::
  "env \<Rightarrow> string option \<Rightarrow> session_state \<Rightarrow> session_state \<times> response" where
  "close_page e pageId s =
     (case registered (js_or pageId (currentPageId s)) s of
        None \<Rightarrow> (s, NotFound)
      | Some (ident, page) \<Rightarrow>
          if \<not> page_close e page then (s, Failed CloseFailed)
          else
            (let s1 = s\<lparr>pages := AList.delete ident (pages s),
                        consoleMessages := AList.delete ident (consoleMessages s),
                        networkRequests := AList.delete ident (networkRequests s)\<rparr>;
                 s2 = (if currentPageId s1 = Some ident
                       then s1\<lparr>currentPageId := first_key (pages s1)\<rparr>
                       else s1)
             in (s2, CloseOk)))"

subsection \<open>Sequences of operations\<close>

text \<open>
  One step of the daemon: a command handled, page resolution called on its own (with the
  optional identifier of its signature), the browser disconnecting, or a page emitting an
  event.
\<close>

datatype command =
  PageCommand
  | Resolve "string option"
  | GetConsole "string option"
  | GetNetwork "string option"
  | SelectPage "string option"
  | NewPage "string option"
  | ClosePage "string option"
  | Disconnected
  | Emit page page_event

fun step :: "env \<Rightarrow> command \<Rightarrow> session_state \<Rightarrow> session_state" where
  "step e PageCommand s = fst (page_command e s)"
| "step e (Resolve pageId) s = fst (getOrCreatePage e pageId s)"
| "step e (GetConsole pageId) s = fst (get_console pageId s)"
| "step e (GetNetwork pageId) s = fst (get_network pageId s)"
| "step e (SelectPage pageId) s = fst (select_page e pageId s)"
| "step e (NewPage url) s = fst (new_page e url s)"
| "step e (ClosePage pageId) s = fst (close_page e pageId s)"
| "step e Disconnected s = on_disconnected s"
| "step e (Emit p ev) s = emit e p ev s"

text \<open>The state after a sequence of steps from the initial state, earliest step first.\<close>

definition run :: "(env \<times> command) list \<Rightarrow> session_state" where
  "run tr = fold (\<lambda>ec. step (fst ec) (snd ec)) tr initial_state"

subsection \<open>Invariants of the session state\<close>

text \<open>No page is registered under the empty string.\<close>

definition keys_ok :: "session_state \<Rightarrow> bool" where
  "keys_ok s = ([] \<notin> fst ` set (pages s))"

text \<open>No buffer holds more than 1000 entries.\<close>

definition buffers_ok :: "session_state \<Rightarrow> bool" where
  "buffers_ok s =
     (list_all (\<lambda>b. length (snd b) \<le> 1000) (consoleMessages s) \<and>
      list_all (\<lambda>b. length (snd b) \<le> 1000) (networkRequests s))"

text \<open>\<open>currentPageId\<close> is null or a key of \<open>pages\<close>.\<close>

definition cur_ok :: "session_state \<Rightarrow> bool" where
  "cur_ok s = (case currentPageId s of None \<Rightarrow> True | Some c \<Rightarrow> c \<in> fst ` set (pages s))"

text \<open>
  The steps in which page resolution is given no explicit identifier: every call of
  \<open>getOrCreatePage\<close> in cli.ts is of this kind.
\<close>

fun explicit_free :: "command \<Rightarrow> bool" where
  "explicit_free (Resolve (Some _)) = False"
| "explicit_free _ = True"

subsection \<open>Environments and states used in the examples\<close>

text \<open>
  Every call succeeds, the clock reads 5, no tab is open and \<open>browser.newPage()\<close>
  returns page 7.
\<close>

definition env_ok :: env where
  "env_ok =
     \<lparr>connect = (\<lambda>_. True), isPageValid = (\<lambda>_. True), browser_pages = Some [],
      newPage = Some 7, now = 5, page_close = (\<lambda>_. True), goto_ok = True,
      bringToFront_ok = True, page_op_ok = True\<rparr>"

text \<open>A session with one page, registered by page resolution, and its network buffer.\<close>

definition one_page :: "network_request list \<Rightarrow> session_state" where
  "one_page rs =
     \<lparr>browser = True, pages = [(''page_5'', 7)], currentPageId = Some ''page_5'',
      consoleMessages = [(''page_5'', [])], networkRequests = [(''page_5'', rs)],
      listeners =
        [(7, OnConsole, ''page_5''), (7, OnRequest, ''page_5''),
         (7, OnResponse, ''page_5'')]\<rparr>"

definition get_u :: network_request where
  "get_u = \<lparr>req_url = ''u'', req_method = ''GET'', req_status = 0, req_type = ''xhr''\<rparr>"

definition post_u :: network_request where
  "post_u = \<lparr>req_url = ''u'', req_method = ''POST'', req_status = 0, req_type = ''xhr''\<rparr>"

definition msg_a :: console_message where
  "msg_a = \<lparr>msg_type = ''log'', msg_text = ''a'', msg_timestamp = 5\<rparr>"

definition msg_b :: console_message where
  "msg_b = \<lparr>msg_type = ''error'', msg_text = ''b'', msg_timestamp = 6\<rparr>"

text \<open>A second page: the clock reads 6 and \<open>browser.newPage()\<close> returns page 8.\<close>

definition env_second :: env where
  "env_second = env_ok\<lparr>newPage := Some 8, now := 6\<rparr>"

text \<open>No page answers the validity probe and \<open>browser.pages()\<close> throws.\<close>

definition env_broken :: env where
  "env_broken = env_ok\<lparr>isPageValid := (\<lambda>_. False), browser_pages := None\<rparr>"

text \<open>The session after two \<open>new-page\<close> commands, at clock 5 and at clock 6.\<close>

definition two_pages :: session_state where
  "two_pages =
     \<lparr>browser = True, pages = [(''page_5'', 7), (''page_6'', 8)],
      currentPageId = Some ''page_6'',
      consoleMessages = [(''page_5'', []), (''page_6'', [])],
      networkRequests = [(''page_5'', []), (''page_6'', [])],
      listeners = []\<rparr>"

text \<open>Only page 8 answers the validity probe.\<close>

definition env_only_8_valid :: env where
  "env_only_8_valid = env_ok\<lparr>isPageValid := (\<lambda>p. p = 8)\<rparr>"

text \<open>
  No page answers the probe; the clock reads 7 and \<open>browser.newPage()\<close> returns page 9.
\<close>

definition env_none_valid :: env where
  "env_none_valid = env_ok\<lparr>isPageValid := (\<lambda>_. False), newPage := Some 9, now := 7\<rparr>"

text \<open>\<open>page.close()\<close> throws.\<close>

definition env_close_fails :: env where
  "env_close_fails = env_ok\<lparr>page_close := (\<lambda>_. False)\<rparr>"



text \<open>
  A session: a page is opened, the browser disconnects, two pages are opened, the first
  is selected and closed, and a page command resolves the remaining page.
\<close>

definition session_trace :: "(env \<times> command) list" where
  "session_trace =
     [(env_ok, NewPage None), (env_ok, Disconnected), (env_ok, NewPage None),
      (env_second, NewPage None), (env_ok, SelectPage (Some ''page_5'')),
      (env_ok, ClosePage None), (env_only_8_valid, Resolve None)]"

section \<open>Properties\<close>

subsection \<open>Page identifiers are an injective function of the clock\<close>





lemma page_id_nonempty: "page_id t \<noteq> []"
  by (simp add: page_id_def)

subsection \<open>The record found by a response\<close>

lemma find_pending_None: "find_pending u rs = None \<longleftrightarrow> (\<forall>r \<in> set rs. \<not> pending u r)"
  by (induction rs) auto

lemma find_pending_Some:
  "find_pending u rs = Some i \<longleftrightarrow>
     i < length rs \<and> pending u (rs ! i) \<and> (\<forall>j < i. \<not> pending u (rs ! j))"
proof (induction rs arbitrary: i)
  case Nil then show ?case by simp
next
  case (Cons r rs)
  show ?case
  proof (cases "pending u r")
    case True
    then show ?thesis by (cases i) auto
  next
    case False
    show ?thesis
    proof (cases i)
      case 0 with False show ?thesis by auto
    next
      case (Suc k)
      have "(\<forall>j<Suc k. \<not> pending u ((r # rs) ! j)) \<longleftrightarrow> (\<forall>j<k. \<not> pending u (rs ! j))"
        using False by (auto simp: less_Suc_eq_0_disj)
      with False Suc Cons.IH [of k] show ?thesis by auto
    qed
  qed
qed

lemma set_status_first:
  assumes "i < length rs" "pending u (rs ! i)" "\<forall>j < i. \<not> pending u (rs ! j)"
  shows "set_status u st rs = rs[i := (rs ! i)\<lparr>req_status := st\<rparr>]"
proof -
  from assms have "find_pending u rs = Some i" by (simp add: find_pending_Some)
  then show ?thesis by (simp add: set_status_def)
qed

lemma set_status_none: "\<forall>r \<in> set rs. \<not> pending u r \<Longrightarrow> set_status u st rs = rs"
  using find_pending_None [of u rs] by (simp add: set_status_def)

lemma run_snoc: "run (tr @ [ec]) = step (fst ec) (snd ec) (run tr)"
  by (simp add: run_def)

text \<open>
  C1, as the spec states it: the response sets the status of the most recent pending
  record of its url. It does not. From the initial state, a page command registers page
  7 as \<open>page_5\<close>; the page sends a GET and then a POST to the same url; the response
  that follows sets the status of the GET, the earlier record, and the POST, the most
  recent pending record, stays pending.
\<close>

theorem response_most_recent_counterexample:
  "map_of (networkRequests (run
     [(env_ok, PageCommand),
      (env_ok, Emit 7 (RequestEvent ''u'' ''GET'' ''xhr'')),
      (env_ok, Emit 7 (RequestEvent ''u'' ''POST'' ''xhr'')),
      (env_ok, Emit 7 (ResponseEvent ''u'' 200))])) ''page_5'' =
   Some [get_u\<lparr>req_status := 200\<rparr>, post_u]"
  by code_simp

text \<open>
  C1, amended: the listener for responses of the page registered as \<open>pid\<close> sets the
  status of the earliest-appended record of that buffer that has the url of the response
  and status 0, and changes nothing else; when the buffer has no such record, the state
  is unchanged.
\<close>

theorem response_sets_earliest_pending:
  assumes "map_of (networkRequests s) pid = Some rs"
  shows "(i < length rs \<and> pending u (rs ! i) \<and> (\<forall>j < i. \<not> pending u (rs ! j)) \<longrightarrow>
            on_response pid u st s =
              s\<lparr>networkRequests :=
                  AList.update pid (rs[i := (rs ! i)\<lparr>req_status := st\<rparr>]) (networkRequests s)\<rparr>)
       \<and> ((\<forall>r \<in> set rs. \<not> pending u r) \<longrightarrow> on_response pid u st s = s)"
proof (intro conjI impI)
  assume "i < length rs \<and> pending u (rs ! i) \<and> (\<forall>j < i. \<not> pending u (rs ! j))"
  then have "set_status u st rs = rs[i := (rs ! i)\<lparr>req_status := st\<rparr>]"
    by (simp add: set_status_first)
  with assms show "on_response pid u st s =
      s\<lparr>networkRequests :=
          AList.update pid (rs[i := (rs ! i)\<lparr>req_status := st\<rparr>]) (networkRequests s)\<rparr>"
    by (simp add: on_response_def)
next
  assume "\<forall>r \<in> set rs. \<not> pending u r"
  then have "set_status u st rs = rs" by (rule set_status_none)
  with assms show "on_response pid u st s = s"
    by (simp add: on_response_def update_triv)
qed

theorem response_sets_earliest_pending_witness:
  "on_response ''page_5'' ''u'' 200 (one_page [get_u, post_u]) =
     one_page [get_u\<lparr>req_status := 200\<rparr>, post_u]
   \<and> on_response ''page_5'' ''v'' 200 (one_page [get_u, post_u]) = one_page [get_u, post_u]"
proof -
  have b: "map_of (networkRequests (one_page [get_u, post_u])) ''page_5'' = Some [get_u, post_u]"
    by (simp add: one_page_def)
  have p: "pending ''u'' get_u" "\<not> pending ''v'' get_u" "\<not> pending ''v'' post_u"
    by (simp_all add: pending_def get_u_def post_u_def)
  from response_sets_earliest_pending [OF b, of 0 "''u''" 200] p
  have 1: "on_response ''page_5'' ''u'' 200 (one_page [get_u, post_u]) =
     one_page [get_u\<lparr>req_status := 200\<rparr>, post_u]"
    by (simp add: one_page_def)
  from response_sets_earliest_pending [OF b, of 0 "''v''" 200] p
  have 2: "on_response ''page_5'' ''v'' 200 (one_page [get_u, post_u]) = one_page [get_u, post_u]"
    by simp
  from 1 2 show ?thesis by simp
qed

text \<open>
  C2: when the buffer of the page holds two pending records of the url of a response,
  the one appended first (at the lower index \<open>i\<close>, no pending record of that url before
  it) gets the status; the later one, at \<open>j\<close>, is left as it was.
\<close>

theorem response_two_pending_earliest_matched:
  assumes "map_of (networkRequests s) pid = Some rs"
    and "i < j" and "j < length rs"
    and "pending u (rs ! i)" and "pending u (rs ! j)"
    and "\<forall>k < i. \<not> pending u (rs ! k)"
  shows "\<exists>rs'. map_of (networkRequests (on_response pid u st s)) pid = Some rs'
           \<and> length rs' = length rs
           \<and> rs' ! i = (rs ! i)\<lparr>req_status := st\<rparr>
           \<and> (\<forall>k < length rs. k \<noteq> i \<longrightarrow> rs' ! k = rs ! k)
           \<and> rs' ! j = rs ! j"
proof -
  from assms have i: "i < length rs" by simp
  with assms have "set_status u st rs = rs[i := (rs ! i)\<lparr>req_status := st\<rparr>]"
    by (simp add: set_status_first)
  with assms(1) have "map_of (networkRequests (on_response pid u st s)) pid =
      Some (rs[i := (rs ! i)\<lparr>req_status := st\<rparr>])"
    by (simp add: on_response_def update_conv')
  moreover from assms(2) have "j \<noteq> i" by simp
  ultimately show ?thesis using i by simp
qed

theorem response_two_pending_earliest_matched_witness:
  "\<exists>rs'. map_of (networkRequests
            (on_response ''page_5'' ''u'' 404 (one_page [get_u, post_u]))) ''page_5'' = Some rs'
         \<and> length rs' = 2
         \<and> rs' ! 0 = get_u\<lparr>req_status := 404\<rparr>
         \<and> rs' ! 1 = post_u"
proof -
  have b: "map_of (networkRequests (one_page [get_u, post_u])) ''page_5'' = Some [get_u, post_u]"
    by (simp add: one_page_def)
  have p: "pending ''u'' ([get_u, post_u] ! 0)" "pending ''u'' ([get_u, post_u] ! 1)"
    by (simp_all add: pending_def get_u_def post_u_def)
  have "(0::nat) < 1" "1 < length [get_u, post_u]" "\<forall>k < (0::nat). \<not> pending ''u'' ([get_u, post_u] ! k)"
    by simp_all
  from response_two_pending_earliest_matched [OF b this(1) this(2) p this(3), of 404]
  show ?thesis by (auto simp: numeral_2_eq_2)
qed

subsection \<open>What every step preserves\<close>

lemma keys_delete: "fst ` set (AList.delete k al) = fst ` set al - {k}"
proof -
  have "set (map fst (AList.delete k al)) = set (map fst al) - {k}"
    by (simp only: delete_keys set_removeAll)
  then show ?thesis by simp
qed

lemma run_listener_frame:
  "pages (run_listener e ev pid s) = pages s \<and>
   currentPageId (run_listener e ev pid s) = currentPageId s \<and>
   listeners (run_listener e ev pid s) = listeners s \<and>
   browser (run_listener e ev pid s) = browser s"
  by (cases ev) (auto simp: on_console_def on_request_def on_response_def split: option.splits)

lemma fold_listener_frame:
  "pages (fold (\<lambda>l. run_listener e ev (snd (snd l))) ls s) = pages s \<and>
   currentPageId (fold (\<lambda>l. run_listener e ev (snd (snd l))) ls s) = currentPageId s \<and>
   listeners (fold (\<lambda>l. run_listener e ev (snd (snd l))) ls s) = listeners s \<and>
   browser (fold (\<lambda>l. run_listener e ev (snd (snd l))) ls s) = browser s"
  by (induction ls arbitrary: s) (simp_all add: run_listener_frame)

lemma emit_frame:
  "pages (emit e p ev s) = pages s \<and> currentPageId (emit e p ev s) = currentPageId s \<and>
   listeners (emit e p ev s) = listeners s \<and> browser (emit e p ev s) = browser s"
  by (simp add: emit_def fold_listener_frame)

lemma page_id_nonempty': "[] \<noteq> page_id t"
  by (simp add: page_id_def)

lemma launch_pages: "launchBrowser e s = Inr s0 \<Longrightarrow> s0 = s \<or> s0 = s\<lparr>browser := True\<rparr>"
  by (auto simp: launchBrowser_def split: if_splits)

lemma create_page_keys_ok: "keys_ok s \<Longrightarrow> keys_ok (fst (create_page e s))"
  by (auto simp: create_page_def keys_ok_def dom_update page_id_nonempty page_id_nonempty' Let_def
      split: option.splits)

lemma resolve_current_keys_ok: "keys_ok s \<Longrightarrow> keys_ok (fst (resolve_current e s))"
proof -
  assume k: "keys_ok s"
  have "keys_ok (s\<lparr>pages := AList.delete c (pages s), currentPageId := None\<rparr>)" for c
    using k by (simp add: keys_ok_def keys_delete)
  then show ?thesis using k
    by (auto simp: resolve_current_def create_page_keys_ok split: option.splits)
qed

lemma getOrCreatePage_keys_ok: "keys_ok s \<Longrightarrow> keys_ok (fst (getOrCreatePage e pageId s))"
proof -
  assume k: "keys_ok s"
  have d: "keys_ok (s0\<lparr>pages := AList.delete c (pages s0)\<rparr>)" if "keys_ok s0" for c s0
    using that by (simp add: keys_ok_def keys_delete)
  have l: "keys_ok s0" if "launchBrowser e s = Inr s0" for s0
    using launch_pages [OF that] k by (auto simp: keys_ok_def)
  show ?thesis using k
    by (auto simp: getOrCreatePage_def resolve_current_keys_ok d l split: option.splits sum.splits)
qed

lemma new_page_keys_ok: "keys_ok s \<Longrightarrow> keys_ok (fst (new_page e url s))"
proof -
  assume k: "keys_ok s"
  have l: "keys_ok s0" if "launchBrowser e s = Inr s0" for s0
    using launch_pages [OF that] k by (auto simp: keys_ok_def)
  show ?thesis using k
    by (auto simp: new_page_def Let_def keys_ok_def dom_update page_id_nonempty page_id_nonempty'
        dest!: l split: option.splits sum.splits)
qed

lemma close_page_keys_ok: "keys_ok s \<Longrightarrow> keys_ok (fst (close_page e pageId s))"
  by (auto simp: close_page_def Let_def keys_ok_def keys_delete split: option.splits)

lemma step_keys_ok: "keys_ok s \<Longrightarrow> keys_ok (step e c s)"
proof (cases c)
  case PageCommand
  assume "keys_ok s"
  then have "keys_ok (fst (getOrCreatePage e None s))" by (rule getOrCreatePage_keys_ok)
  then show ?thesis using PageCommand
    by (auto simp: page_command_def split: prod.splits sum.splits)
next
  case (SelectPage x)
  assume "keys_ok s"
  then show ?thesis using SelectPage
    by (auto simp: select_page_def Let_def keys_ok_def split: option.splits)
next
  case Disconnected
  then show ?thesis by (simp add: on_disconnected_def keys_ok_def)
next
  case (Emit p ev)
  assume "keys_ok s"
  then show ?thesis using Emit by (simp add: keys_ok_def emit_frame)
qed (simp_all add: getOrCreatePage_keys_ok new_page_keys_ok close_page_keys_ok
      get_console_def get_network_def Let_def)

lemma run_keys_ok: "keys_ok (run tr)"
proof (induction tr rule: rev_induct)
  case Nil
  show ?case by (simp add: run_def initial_state_def keys_ok_def)
next
  case (snoc ec tr)
  then show ?case by (simp add: run_snoc step_keys_ok)
qed

subsection \<open>The buffers stay bounded\<close>

lemma list_all_update:
  "P (k, v) \<Longrightarrow> list_all P al \<Longrightarrow> list_all P (AList.update k v al)"
  by (induction al) auto

lemma list_all_delete: "list_all P al \<Longrightarrow> list_all P (AList.delete k al)"
  by (simp add: AList.delete_eq list_all_iff)

lemma list_all_map_of: "list_all P al \<Longrightarrow> map_of al k = Some v \<Longrightarrow> P (k, v)"
  by (auto simp: list_all_iff dest: map_of_SomeD)

lemma push_shift_eq:
  "push_shift xs x = (if length xs < 1000 then xs @ [x] else tl xs @ [x])"
  by (cases xs) (auto simp: push_shift_def Let_def)

lemma push_shift_length: "length xs \<le> 1000 \<Longrightarrow> length (push_shift xs x) \<le> 1000"
  by (auto simp: push_shift_eq)

lemma set_status_length: "length (set_status u st rs) = length rs"
  by (simp add: set_status_def split: option.splits)

lemma run_listener_buffers_ok: "buffers_ok s \<Longrightarrow> buffers_ok (run_listener e ev pid s)"
proof (cases ev)
  case (ConsoleEvent ty tx)
  assume b: "buffers_ok s"
  show ?thesis
  proof (cases "map_of (consoleMessages s) pid")
    case None
    with b ConsoleEvent show ?thesis by (simp add: on_console_def)
  next
    case (Some ms)
    from b have l: "list_all (\<lambda>b. length (snd b) \<le> 1000) (consoleMessages s)"
      by (simp add: buffers_ok_def)
    from list_all_map_of [OF l Some] have "length ms \<le> 1000" by simp
    then have "length (push_shift ms m) \<le> 1000" for m by (rule push_shift_length)
    with l b Some ConsoleEvent show ?thesis
      by (simp add: on_console_def buffers_ok_def list_all_update)
  qed
next
  case (RequestEvent u m ty)
  assume b: "buffers_ok s"
  show ?thesis
  proof (cases "map_of (networkRequests s) pid")
    case None
    with b RequestEvent show ?thesis by (simp add: on_request_def)
  next
    case (Some rs)
    from b have l: "list_all (\<lambda>b. length (snd b) \<le> 1000) (networkRequests s)"
      by (simp add: buffers_ok_def)
    from list_all_map_of [OF l Some] have "length rs \<le> 1000" by simp
    then have "length (push_shift rs r) \<le> 1000" for r by (rule push_shift_length)
    with l b Some RequestEvent show ?thesis
      by (simp add: on_request_def buffers_ok_def list_all_update)
  qed
next
  case (ResponseEvent u st)
  assume b: "buffers_ok s"
  show ?thesis
  proof (cases "map_of (networkRequests s) pid")
    case None
    with b ResponseEvent show ?thesis by (simp add: on_response_def)
  next
    case (Some rs)
    from b have l: "list_all (\<lambda>b. length (snd b) \<le> 1000) (networkRequests s)"
      by (simp add: buffers_ok_def)
    from list_all_map_of [OF l Some] have "length rs \<le> 1000" by simp
    with l b Some ResponseEvent show ?thesis
      by (simp add: on_response_def buffers_ok_def list_all_update set_status_length)
  qed
qed

lemma emit_buffers_ok: "buffers_ok s \<Longrightarrow> buffers_ok (emit e p ev s)"
proof -
  have "buffers_ok s \<Longrightarrow> buffers_ok (fold (\<lambda>l. run_listener e ev (snd (snd l))) ls s)" for ls
    by (induction ls arbitrary: s) (simp_all add: run_listener_buffers_ok)
  then show "buffers_ok s \<Longrightarrow> buffers_ok (emit e p ev s)" by (simp add: emit_def)
qed

lemma launch_buffers_ok: "buffers_ok s \<Longrightarrow> launchBrowser e s = Inr s0 \<Longrightarrow> buffers_ok s0"
  by (auto simp: launchBrowser_def buffers_ok_def split: if_splits)

lemma create_page_buffers_ok: "buffers_ok s \<Longrightarrow> buffers_ok (fst (create_page e s))"
  by (auto simp: create_page_def buffers_ok_def Let_def list_all_update split: option.splits)

lemma resolve_current_buffers_ok: "buffers_ok s \<Longrightarrow> buffers_ok (fst (resolve_current e s))"
proof -
  assume b: "buffers_ok s"
  have "buffers_ok (s\<lparr>pages := AList.delete c (pages s), currentPageId := None\<rparr>)" for c
    using b by (simp add: buffers_ok_def)
  then show ?thesis using b
    by (auto simp: resolve_current_def create_page_buffers_ok split: option.splits)
qed

lemma getOrCreatePage_buffers_ok:
  "buffers_ok s \<Longrightarrow> buffers_ok (fst (getOrCreatePage e pageId s))"
proof -
  assume b: "buffers_ok s"
  have d: "buffers_ok (s0\<lparr>pages := AList.delete c (pages s0)\<rparr>)" if "buffers_ok s0" for c s0
    using that by (simp add: buffers_ok_def)
  show ?thesis using b
    by (auto simp: getOrCreatePage_def resolve_current_buffers_ok d
        dest: launch_buffers_ok split: option.splits sum.splits)
qed

lemma new_page_buffers_ok: "buffers_ok s \<Longrightarrow> buffers_ok (fst (new_page e url s))"
proof -
  assume b: "buffers_ok s"
  have l: "buffers_ok s0" if "launchBrowser e s = Inr s0" for s0
    using launch_buffers_ok [OF b that] .
  show ?thesis using b
    by (auto simp: new_page_def Let_def buffers_ok_def list_all_update
        dest!: l split: option.splits sum.splits)
qed

lemma close_page_buffers_ok: "buffers_ok s \<Longrightarrow> buffers_ok (fst (close_page e pageId s))"
  by (auto simp: close_page_def Let_def buffers_ok_def list_all_delete split: option.splits)

lemma step_buffers_ok: "buffers_ok s \<Longrightarrow> buffers_ok (step e c s)"
proof (cases c)
  case PageCommand
  assume "buffers_ok s"
  then have "buffers_ok (fst (getOrCreatePage e None s))" by (rule getOrCreatePage_buffers_ok)
  then show ?thesis using PageCommand
    by (auto simp: page_command_def split: prod.splits sum.splits)
next
  case (SelectPage x)
  assume "buffers_ok s"
  then show ?thesis using SelectPage
    by (auto simp: select_page_def Let_def buffers_ok_def split: option.splits)
next
  case Disconnected
  assume "buffers_ok s"
  then show ?thesis using Disconnected by (simp add: on_disconnected_def buffers_ok_def)
qed (simp_all add: getOrCreatePage_buffers_ok new_page_buffers_ok close_page_buffers_ok
      get_console_def get_network_def Let_def emit_buffers_ok)

lemma run_buffers_ok: "buffers_ok (run tr)"
proof (induction tr rule: rev_induct)
  case Nil
  show ?case by (simp add: run_def initial_state_def buffers_ok_def)
next
  case (snoc ec tr)
  then show ?case by (simp add: run_snoc step_buffers_ok)
qed

lemma step_console_one_page:
  "n < 1000 \<Longrightarrow>
   step env_ok (Emit 7 (ConsoleEvent ''log'' ''a''))
     ((one_page [])\<lparr>consoleMessages := [(''page_5'', replicate n msg_a)]\<rparr>) =
   (one_page [])\<lparr>consoleMessages := [(''page_5'', replicate (Suc n) msg_a)]\<rparr>"
  by (simp add: emit_def one_page_def on_console_def push_shift_eq msg_a_def env_ok_def
      replicate_append_same)

lemma run_console_events:
  "n \<le> 1000 \<Longrightarrow>
   run ((env_ok, PageCommand) # replicate n (env_ok, Emit 7 (ConsoleEvent ''log'' ''a''))) =
   (one_page [])\<lparr>consoleMessages := [(''page_5'', replicate n msg_a)]\<rparr>"
proof (induction n)
  case 0
  show ?case by code_simp
next
  case (Suc n)
  then have n: "n < 1000"
    and ih: "run ((env_ok, PageCommand) # replicate n (env_ok, Emit 7 (ConsoleEvent ''log'' ''a''))) =
      (one_page [])\<lparr>consoleMessages := [(''page_5'', replicate n msg_a)]\<rparr>"
    by simp_all
  have "run ((env_ok, PageCommand) # replicate (Suc n) (env_ok, Emit 7 (ConsoleEvent ''log'' ''a''))) =
        step env_ok (Emit 7 (ConsoleEvent ''log'' ''a''))
          (run ((env_ok, PageCommand) # replicate n (env_ok, Emit 7 (ConsoleEvent ''log'' ''a''))))"
    using run_snoc [of "(env_ok, PageCommand) # replicate n (env_ok, Emit 7 (ConsoleEvent ''log'' ''a''))"
        "(env_ok, Emit 7 (ConsoleEvent ''log'' ''a''))"]
    by (simp add: replicate_append_same)
  also have "\<dots> = step env_ok (Emit 7 (ConsoleEvent ''log'' ''a''))
      ((one_page [])\<lparr>consoleMessages := [(''page_5'', replicate n msg_a)]\<rparr>)"
    by (simp only: ih)
  also have "\<dots> = (one_page [])\<lparr>consoleMessages := [(''page_5'', replicate (Suc n) msg_a)]\<rparr>"
    using n by (rule step_console_one_page)
  finally show ?case .
qed

text \<open>
  C6: in every state the daemon can reach, a console buffer and a network buffer hold at
  most 1000 entries, and an append to a buffer adds the entry at the end when the buffer
  holds fewer than 1000 entries and otherwise also drops the first, which is the oldest.
\<close>

theorem buffers_bounded_fifo:
  "(map_of (consoleMessages (run tr)) pid = Some ms \<longrightarrow>
      length ms \<le> 1000 \<and>
      map_of (consoleMessages (on_console pid m (run tr))) pid =
        Some (if length ms < 1000 then ms @ [m] else tl ms @ [m]))
   \<and> (map_of (networkRequests (run tr)) pid = Some rs \<longrightarrow>
      length rs \<le> 1000 \<and>
      map_of (networkRequests (on_request pid r (run tr))) pid =
        Some (if length rs < 1000 then rs @ [r] else tl rs @ [r]))"
proof (intro conjI impI)
  assume a: "map_of (consoleMessages (run tr)) pid = Some ms"
  have "list_all (\<lambda>b. length (snd b) \<le> 1000) (consoleMessages (run tr))"
    using run_buffers_ok [of tr] by (simp add: buffers_ok_def)
  from list_all_map_of [OF this a] show "length ms \<le> 1000" by simp
  from a show "map_of (consoleMessages (on_console pid m (run tr))) pid =
        Some (if length ms < 1000 then ms @ [m] else tl ms @ [m])"
    by (simp add: on_console_def update_conv' push_shift_eq)
next
  assume a: "map_of (networkRequests (run tr)) pid = Some rs"
  have "list_all (\<lambda>b. length (snd b) \<le> 1000) (networkRequests (run tr))"
    using run_buffers_ok [of tr] by (simp add: buffers_ok_def)
  from list_all_map_of [OF this a] show "length rs \<le> 1000" by simp
  from a show "map_of (networkRequests (on_request pid r (run tr))) pid =
        Some (if length rs < 1000 then rs @ [r] else tl rs @ [r])"
    by (simp add: on_request_def update_conv' push_shift_eq)
qed

theorem buffers_bounded_fifo_witness:
  "length (replicate 1000 msg_a) \<le> 1000
   \<and> map_of (consoleMessages (on_console ''page_5'' msg_b
        (run ((env_ok, PageCommand) # replicate 1000 (env_ok, Emit 7 (ConsoleEvent ''log'' ''a'')))))) ''page_5'' =
      Some (replicate 999 msg_a @ [msg_b])
   \<and> map_of (networkRequests (on_request ''page_5'' get_u
        (run ((env_ok, PageCommand) # replicate 1000 (env_ok, Emit 7 (ConsoleEvent ''log'' ''a'')))))) ''page_5'' =
      Some [get_u]"
proof -
  let ?tr = "(env_ok, PageCommand) # replicate 1000 (env_ok, Emit 7 (ConsoleEvent ''log'' ''a''))"
  have r: "run ?tr = (one_page [])\<lparr>consoleMessages := [(''page_5'', replicate 1000 msg_a)]\<rparr>"
    by (rule run_console_events) simp
  have c: "map_of (consoleMessages (run ?tr)) ''page_5'' = Some (replicate 1000 msg_a)"
    by (simp add: r)
  have n: "map_of (networkRequests (run ?tr)) ''page_5'' = Some []"
    by (simp add: r one_page_def)
  from buffers_bounded_fifo [of ?tr "''page_5''" "replicate 1000 msg_a" msg_b "[]" get_u] c n
  show ?thesis by simp
qed

subsection \<open>The current page\<close>

lemma two_pages_run: "run [(env_ok, NewPage None), (env_second, NewPage None)] = two_pages"
  by code_simp

lemma cur_ok_iff: "cur_ok s \<longleftrightarrow> (\<forall>c. currentPageId s = Some c \<longrightarrow> c \<in> fst ` set (pages s))"
  by (simp add: cur_ok_def split: option.splits)

lemma registered_in_pages: "registered i s = Some (k, p) \<Longrightarrow> k \<in> fst ` set (pages s) \<and> k \<noteq> [] \<and> i = Some k \<and> map_of (pages s) k = Some p"
  by (auto simp: registered_def split: option.splits if_splits dest: map_of_SomeD intro: rev_image_eqI)

lemma create_page_cur_ok: "cur_ok s \<Longrightarrow> cur_ok (fst (create_page e s))"
  by (auto simp: create_page_def cur_ok_iff dom_update Let_def split: option.splits)

lemma resolve_current_cur_ok: "cur_ok s \<Longrightarrow> cur_ok (fst (resolve_current e s))"
proof -
  assume k: "cur_ok s"
  have "cur_ok (s\<lparr>pages := AList.delete c (pages s), currentPageId := None\<rparr>)" for c
    by (simp add: cur_ok_iff)
  then show ?thesis using k
    by (auto simp: resolve_current_def create_page_cur_ok split: option.splits)
qed

lemma launch_cur_ok: "cur_ok s \<Longrightarrow> launchBrowser e s = Inr s0 \<Longrightarrow> cur_ok s0"
  by (auto simp: launchBrowser_def cur_ok_iff split: if_splits)

lemma getOrCreatePage_None_cur_ok: "cur_ok s \<Longrightarrow> cur_ok (fst (getOrCreatePage e None s))"
  by (auto simp: getOrCreatePage_def registered_def resolve_current_cur_ok
      dest: launch_cur_ok split: sum.splits)

lemma new_page_cur_ok:
  assumes "cur_ok s"
  shows "cur_ok (fst (new_page e url s))"
  using assms
  by (auto simp: new_page_def Let_def cur_ok_iff dom_update
      dest!: launch_cur_ok [OF assms] split: option.splits sum.splits)

lemma first_key_in: "first_key ps = Some k \<Longrightarrow> k \<in> fst ` set ps"
  by (auto simp: first_key_def js_or_def split: list.splits if_splits)

lemma first_key_None: "[] \<notin> fst ` set ps \<Longrightarrow> first_key ps = None \<longleftrightarrow> ps = []"
  by (cases ps) (auto simp: first_key_def js_or_def)

lemma first_key_delete: "first_key (AList.delete a ps) = Some k \<Longrightarrow> k \<in> fst ` set ps \<and> k \<noteq> a"
  using first_key_in [of "AList.delete a ps" k] by (simp add: keys_delete)

lemma close_page_cur_ok: "cur_ok s \<Longrightarrow> cur_ok (fst (close_page e pageId s))"
  by (auto simp: close_page_def Let_def cur_ok_iff keys_delete
      dest: first_key_delete split: option.splits)

lemma select_page_cur_ok: "cur_ok s \<Longrightarrow> cur_ok (fst (select_page e pageId s))"
  by (auto simp: select_page_def Let_def cur_ok_iff
      split: option.splits dest: map_of_SomeD intro: rev_image_eqI)

lemma step_cur_ok: "explicit_free c \<Longrightarrow> cur_ok s \<Longrightarrow> cur_ok (step e c s)"
proof (cases c)
  case PageCommand
  assume "cur_ok s"
  then have "cur_ok (fst (getOrCreatePage e None s))" by (rule getOrCreatePage_None_cur_ok)
  then show ?thesis using PageCommand
    by (auto simp: page_command_def split: prod.splits sum.splits)
next
  case (Resolve x)
  assume "explicit_free c" "cur_ok s"
  with Resolve show ?thesis by (cases x) (simp_all add: getOrCreatePage_None_cur_ok)
next
  case Disconnected
  then show ?thesis by (simp add: on_disconnected_def cur_ok_iff)
next
  case (Emit p ev)
  assume "cur_ok s"
  then show ?thesis using Emit by (simp add: cur_ok_iff emit_frame)
qed (simp_all add: new_page_cur_ok close_page_cur_ok select_page_cur_ok
      get_console_def get_network_def Let_def)

text \<open>
  In every sequence of steps in which page resolution is called without an explicit
  identifier, as all handlers of cli.ts call it, \<open>currentPageId\<close> is null or a key of
  \<open>pages\<close> after each step.
\<close>

lemma run_cur_ok: "list_all (\<lambda>ec. explicit_free (snd ec)) tr \<Longrightarrow> cur_ok (run tr)"
proof (induction tr rule: rev_induct)
  case Nil
  show ?case by (simp add: run_def initial_state_def cur_ok_iff)
next
  case (snoc ec tr)
  then show ?case by (simp add: run_snoc step_cur_ok)
qed

text \<open>
  C4: after every sequence of session operations (\<open>new-page\<close>, \<open>close-page\<close>,
  \<open>select-page\<close>, the log queries, page resolution as the handlers call it, that is
  with no explicit identifier, disconnect handling and page events), \<open>currentPageId\<close>
  is null or a key of \<open>pages\<close>.
\<close>

theorem current_page_is_registered:
  assumes "list_all (\<lambda>ec. explicit_free (snd ec)) tr"
  shows "cur_ok (run tr)
       \<and> (currentPageId (run tr) = None
          \<or> (\<exists>c p. currentPageId (run tr) = Some c \<and> map_of (pages (run tr)) c = Some p))"
proof -
  from assms have c: "cur_ok (run tr)" by (rule run_cur_ok)
  show ?thesis
  proof (cases "currentPageId (run tr)")
    case None
    with c show ?thesis by simp
  next
    case (Some k)
    with c have "k \<in> fst ` set (pages (run tr))" by (simp add: cur_ok_iff)
    then have "map_of (pages (run tr)) k \<noteq> None" by (simp add: map_of_eq_None_iff)
    with c Some show ?thesis by auto
  qed
qed

theorem current_page_is_registered_witness:
  "currentPageId (run session_trace) = Some ''page_6''
   \<and> map_of (pages (run session_trace)) ''page_6'' = Some 8
   \<and> cur_ok (run session_trace)"
proof -
  have l: "list_all (\<lambda>ec. explicit_free (snd ec)) session_trace"
    by (simp add: session_trace_def)
  have c: "currentPageId (run session_trace) = Some ''page_6''" by code_simp
  from current_page_is_registered [OF l] c
  have "cur_ok (run session_trace)"
    and "\<exists>p. map_of (pages (run session_trace)) ''page_6'' = Some p"
    by simp_all
  moreover have "map_of (pages (run session_trace)) ''page_6'' = Some 8" by code_simp
  ultimately show ?thesis using c by simp
qed


text \<open>
  The restriction to calls without an explicit identifier is needed. \<open>getOrCreatePage\<close>
  with the identifier of the current page, when that page fails the probe and
  \<open>browser.pages()\<close> throws, returns with the entry deleted (line 458) and
  \<open>currentPageId\<close> unchanged. No handler of cli.ts makes such a call.
\<close>

lemma explicit_resolution_keeps_deleted_current:
  "getOrCreatePage env_broken (Some ''page_5'') (run [(env_ok, PageCommand)]) =
     ((one_page [])\<lparr>pages := []\<rparr>, Inl BrowserPagesFailed)
   \<and> currentPageId ((one_page [])\<lparr>pages := []\<rparr>) = Some ''page_5''
   \<and> \<not> cur_ok (run [(env_ok, PageCommand), (env_broken, Resolve (Some ''page_5''))])"
  by code_simp

text \<open>
  C5: in a state the daemon can reach, when \<open>close-page\<close> closes the current page
  (named explicitly or by default) and succeeds, the page is removed, and
  \<open>currentPageId\<close> afterwards is a key of the pages that remain; it is null exactly
  when none remains.
\<close>

theorem close_current_reassigns:
  assumes "currentPageId (run tr) = Some c"
    and "js_or pageId (Some c) = Some c"
    and "close_page e pageId (run tr) = (s', CloseOk)"
  shows "pages s' = AList.delete c (pages (run tr))
       \<and> (currentPageId s' = None \<longleftrightarrow> pages s' = [])
       \<and> (\<forall>k. currentPageId s' = Some k \<longrightarrow> k \<in> fst ` set (pages s'))"
proof -
  let ?s = "run tr"
  from assms(1,2) have t: "js_or pageId (currentPageId ?s) = Some c" by simp
  from assms(3) t obtain p where r: "registered (Some c) ?s = Some (c, p)"
    by (auto simp: close_page_def registered_def split: option.splits if_splits)
  from assms(3) t r assms(1)
  have s': "s' = ?s\<lparr>pages := AList.delete c (pages ?s),
                   consoleMessages := AList.delete c (consoleMessages ?s),
                   networkRequests := AList.delete c (networkRequests ?s),
                   currentPageId := first_key (AList.delete c (pages ?s))\<rparr>"
    by (auto simp: close_page_def Let_def split: if_splits)
  have "[] \<notin> fst ` set (pages ?s)" using run_keys_ok [of tr] by (simp add: keys_ok_def)
  then have k: "[] \<notin> fst ` set (AList.delete c (pages ?s))" by (simp add: keys_delete)
  from s' have 1: "pages s' = AList.delete c (pages ?s)" by simp
  from s' first_key_None [OF k] have 2: "currentPageId s' = None \<longleftrightarrow> pages s' = []" by simp
  from s' have 3: "\<forall>k. currentPageId s' = Some k \<longrightarrow> k \<in> fst ` set (pages s')"
    by (auto dest: first_key_in)
  from 1 2 3 show ?thesis by blast
qed

theorem close_current_reassigns_witness:
  "pages (fst (close_page env_ok None (run [(env_ok, NewPage None), (env_second, NewPage None)]))) = [(''page_5'', 7)]
   \<and> currentPageId (fst (close_page env_ok None (run [(env_ok, NewPage None), (env_second, NewPage None)]))) = Some ''page_5''"
proof -
  let ?tr = "[(env_ok, NewPage None), (env_second, NewPage None)]"
  let ?s' = "fst (close_page env_ok None (run ?tr))"
  have c: "currentPageId (run ?tr) = Some ''page_6''" by code_simp
  have j: "js_or None (Some ''page_6'') = Some ''page_6''" by (simp add: js_or_def)
  have r: "close_page env_ok None (run ?tr) = (?s', CloseOk)" by code_simp
  have d: "AList.delete ''page_6'' (pages (run ?tr)) = [(''page_5'', 7)]" by code_simp
  note th = close_current_reassigns [OF c j r]
  from th d have p: "pages ?s' = [(''page_5'', 7)]" by simp
  from th p have n: "currentPageId ?s' \<noteq> None" by simp
  from th have "\<forall>k. currentPageId ?s' = Some k \<longrightarrow> k \<in> fst ` set (pages ?s')" by blast
  with p have a: "\<forall>k. currentPageId ?s' = Some k \<longrightarrow> k = ''page_5''" by simp
  from n a p show ?thesis by auto
qed

subsection \<open>Registration of a page\<close>

text \<open>
  Page resolution, when it creates a page, leaves it with two empty buffers and the three
  listeners; \<open>new-page\<close> never touches the listeners.
\<close>

lemma new_page_listeners: "listeners (fst (new_page e url s)) = listeners s"
  by (auto simp: new_page_def launchBrowser_def Let_def split: sum.splits option.splits if_splits)

lemma create_page_installs:
  "create_page e s = (s', Inr (p, i)) \<Longrightarrow>
   map_of (consoleMessages s') i = Some [] \<and> map_of (networkRequests s') i = Some [] \<and>
   {(p, OnConsole, i), (p, OnRequest, i), (p, OnResponse, i)} \<subseteq> set (listeners s')"
  by (auto simp: create_page_def Let_def update_conv' split: option.splits)

text \<open>
  C3: every operation that registers a page installs the console, request and response
  listeners before it returns. \<open>getOrCreatePage\<close> does (lines 484-500); the handler
  of \<open>new-page\<close> (lines 623-643) creates the two buffers and installs no listener.
  From the initial state, \<open>new-page\<close> registers page 7 as \<open>page_5\<close> with no listener,
  so a console message and a request of page 7 change nothing and are lost; the same
  console message after a page command, which registers the page through
  \<open>getOrCreatePage\<close>, is captured.
\<close>

theorem new_page_installs_no_listener:
  "new_page env_ok None initial_state =
     ((one_page [])\<lparr>listeners := []\<rparr>, PageOk ''page_5'')
   \<and> emit env_ok 7 (ConsoleEvent ''log'' ''a'') ((one_page [])\<lparr>listeners := []\<rparr>) =
       (one_page [])\<lparr>listeners := []\<rparr>
   \<and> emit env_ok 7 (RequestEvent ''u'' ''GET'' ''xhr'') ((one_page [])\<lparr>listeners := []\<rparr>) =
       (one_page [])\<lparr>listeners := []\<rparr>
   \<and> consoleMessages (run [(env_ok, NewPage None), (env_ok, Emit 7 (ConsoleEvent ''log'' ''a''))]) =
       [(''page_5'', [])]
   \<and> consoleMessages (run [(env_ok, PageCommand), (env_ok, Emit 7 (ConsoleEvent ''log'' ''a''))]) =
       [(''page_5'', [msg_a])]"
  by code_simp

subsection \<open>The fallback chain of page resolution\<close>

text \<open>
  C7: once the browser is connected (\<open>s0\<close> is the state then), page resolution
  returns the page of the explicit identifier when it is registered and valid; otherwise,
  with the failed explicit entry deleted (state \<open>s1\<close>), it returns the current page
  when that is registered and valid; otherwise, with the failed current entry deleted and
  \<open>currentPageId\<close> reset (state \<open>s2\<close>), it goes on to create a page, and when
  \<open>browser.pages()\<close> and, if no blank tab is open, \<open>browser.newPage()\<close> do not throw,
  the new page is returned under the identifier made from the clock, registered in the
  pages of \<open>s2\<close> and made current.
\<close>

theorem page_resolution_fallback_chain:
  assumes "launchBrowser e s = Inr s0"
  shows "(\<forall>pid p. registered pageId s0 = Some (pid, p) \<and> isPageValid e p \<longrightarrow>
            getOrCreatePage e pageId s = (s0, Inr (p, pid)))
    \<and> (\<forall>s1. (registered pageId s0 = None \<and> s1 = s0 \<or>
              (\<exists>pid p. registered pageId s0 = Some (pid, p) \<and> \<not> isPageValid e p \<and>
                 s1 = s0\<lparr>pages := AList.delete pid (pages s0)\<rparr>)) \<longrightarrow>
          (\<forall>cur q. registered (currentPageId s1) s1 = Some (cur, q) \<and> isPageValid e q \<longrightarrow>
             getOrCreatePage e pageId s = (s1, Inr (q, cur)))
        \<and> (\<forall>s2. (registered (currentPageId s1) s1 = None \<and> s2 = s1 \<or>
               (\<exists>cur q. registered (currentPageId s1) s1 = Some (cur, q) \<and> \<not> isPageValid e q \<and>
                  s2 = s1\<lparr>pages := AList.delete cur (pages s1), currentPageId := None\<rparr>)) \<longrightarrow>
             getOrCreatePage e pageId s = create_page e s2
           \<and> (\<forall>ps p. browser_pages e = Some ps \<and>
                  (case find (\<lambda>x. reusable (snd x)) ps of
                     Some x \<Rightarrow> Some (fst x) | None \<Rightarrow> newPage e) = Some p \<longrightarrow>
                (\<exists>s3. getOrCreatePage e pageId s = (s3, Inr (p, page_id (now e))) \<and>
                   pages s3 = AList.update (page_id (now e)) p (pages s2) \<and>
                   currentPageId s3 = Some (page_id (now e))))))"
proof (intro conjI allI impI)
  fix pid p
  assume "registered pageId s0 = Some (pid, p) \<and> isPageValid e p"
  with assms show "getOrCreatePage e pageId s = (s0, Inr (p, pid))"
    by (simp add: getOrCreatePage_def)
next
  fix s1
  assume a: "registered pageId s0 = None \<and> s1 = s0 \<or>
              (\<exists>pid p. registered pageId s0 = Some (pid, p) \<and> \<not> isPageValid e p \<and>
                 s1 = s0\<lparr>pages := AList.delete pid (pages s0)\<rparr>)"
  with assms have g: "getOrCreatePage e pageId s = resolve_current e s1"
    by (auto simp: getOrCreatePage_def)
  {
    fix cur q
    assume "registered (currentPageId s1) s1 = Some (cur, q) \<and> isPageValid e q"
    with g show "getOrCreatePage e pageId s = (s1, Inr (q, cur))"
      by (simp add: resolve_current_def)
  }
  fix s2
  assume b: "registered (currentPageId s1) s1 = None \<and> s2 = s1 \<or>
               (\<exists>cur q. registered (currentPageId s1) s1 = Some (cur, q) \<and> \<not> isPageValid e q \<and>
                  s2 = s1\<lparr>pages := AList.delete cur (pages s1), currentPageId := None\<rparr>)"
  with g show c: "getOrCreatePage e pageId s = create_page e s2"
    by (auto simp: resolve_current_def)
  fix ps p
  assume "browser_pages e = Some ps \<and>
                  (case find (\<lambda>x. reusable (snd x)) ps of
                     Some x \<Rightarrow> Some (fst x) | None \<Rightarrow> newPage e) = Some p"
  then show "\<exists>s3. getOrCreatePage e pageId s = (s3, Inr (p, page_id (now e))) \<and>
                   pages s3 = AList.update (page_id (now e)) p (pages s2) \<and>
                   currentPageId s3 = Some (page_id (now e))"
    by (simp add: c create_page_def Let_def)
qed


theorem page_resolution_fallback_chain_witness:
  "getOrCreatePage env_ok (Some ''page_5'') two_pages = (two_pages, Inr (7, ''page_5''))
   \<and> getOrCreatePage env_only_8_valid (Some ''page_5'') two_pages =
       (two_pages\<lparr>pages := [(''page_6'', 8)]\<rparr>, Inr (8, ''page_6''))
   \<and> (\<exists>s3. getOrCreatePage env_none_valid (Some ''page_5'') two_pages = (s3, Inr (9, ''page_7''))
         \<and> pages s3 = [(''page_7'', 9)] \<and> currentPageId s3 = Some ''page_7'')"
proof -
  have l: "launchBrowser e two_pages = Inr two_pages" for e
    by (simp add: launchBrowser_def two_pages_def)
  have r: "registered (Some ''page_5'') two_pages = Some (''page_5'', 7)"
    by (simp add: registered_def two_pages_def)
  let ?s1 = "two_pages\<lparr>pages := AList.delete ''page_5'' (pages two_pages)\<rparr>"
  have s1: "?s1 = two_pages\<lparr>pages := [(''page_6'', 8)]\<rparr>"
    by (simp add: two_pages_def)
  have c: "registered (currentPageId ?s1) ?s1 = Some (''page_6'', 8)"
    by (simp add: registered_def two_pages_def)
  let ?s2 = "?s1\<lparr>pages := AList.delete ''page_6'' (pages ?s1), currentPageId := None\<rparr>"
  have s2: "pages ?s2 = []"
    by (simp add: two_pages_def)
  have v: "isPageValid env_ok 7" "\<not> isPageValid env_only_8_valid 7" "isPageValid env_only_8_valid 8"
    "\<not> isPageValid env_none_valid 7" "\<not> isPageValid env_none_valid 8"
    by (simp_all add: env_ok_def env_only_8_valid_def env_none_valid_def)
  have n: "browser_pages env_none_valid = Some []"
    "(case find (\<lambda>x. reusable (snd x)) [] of Some x \<Rightarrow> Some (fst x) | None \<Rightarrow> newPage env_none_valid) = Some 9"
    "page_id (now env_none_valid) = ''page_7''"
    by (simp_all add: env_ok_def env_none_valid_def page_id_def string_of_nat.simps digit_char_def)
  from page_resolution_fallback_chain [OF l, of "Some ''page_5''" env_ok] r v
  have 1: "getOrCreatePage env_ok (Some ''page_5'') two_pages = (two_pages, Inr (7, ''page_5''))"
    by blast
  from page_resolution_fallback_chain [OF l, of "Some ''page_5''" env_only_8_valid] r c v
  have "getOrCreatePage env_only_8_valid (Some ''page_5'') two_pages = (?s1, Inr (8, ''page_6''))"
    by blast
  then have 2: "getOrCreatePage env_only_8_valid (Some ''page_5'') two_pages =
       (two_pages\<lparr>pages := [(''page_6'', 8)]\<rparr>, Inr (8, ''page_6''))"
    by (simp only: s1)
  from page_resolution_fallback_chain [OF l, of "Some ''page_5''" env_none_valid] r c v n
  have "\<exists>s3. getOrCreatePage env_none_valid (Some ''page_5'') two_pages =
          (s3, Inr (9, page_id (now env_none_valid))) \<and>
        pages s3 = AList.update (page_id (now env_none_valid)) 9 (pages ?s2) \<and>
        currentPageId s3 = Some (page_id (now env_none_valid))"
    by blast
  then have 3: "\<exists>s3. getOrCreatePage env_none_valid (Some ''page_5'') two_pages = (s3, Inr (9, ''page_7''))
         \<and> pages s3 = [(''page_7'', 9)] \<and> currentPageId s3 = Some ''page_7''"
    by (simp add: n two_pages_def)
  from 1 2 3 show ?thesis by blast
qed

subsection \<open>Identifiers and the clock\<close>










subsection \<open>close-page and the log queries\<close>

text \<open>
  C9: when \<open>page.close()\<close> throws for the page that \<open>close-page\<close> has resolved, the
  response is the failure with that error and the state is the one before the command;
  more generally every response of \<open>close-page\<close> other than the success leaves the
  state unchanged, and the success is given only after the remote page has closed.
\<close>

theorem close_page_atomic_on_error:
  "(registered (js_or pageId (currentPageId s)) s = Some (i, p) \<and> \<not> page_close e p \<longrightarrow>
      close_page e pageId s = (s, Failed CloseFailed))
   \<and> (close_page e pageId s = (s', r) \<and> r \<noteq> CloseOk \<longrightarrow> s' = s)
   \<and> (close_page e pageId s = (s', CloseOk) \<longrightarrow>
        (\<exists>k q. registered (js_or pageId (currentPageId s)) s = Some (k, q) \<and> page_close e q))"
  by (auto simp: close_page_def Let_def split: option.splits if_splits)

theorem close_page_atomic_on_error_witness:
  "close_page env_close_fails (Some ''page_5'') two_pages = (two_pages, Failed CloseFailed)
   \<and> fst (close_page env_close_fails None two_pages) = two_pages
   \<and> (\<exists>k q. registered (js_or None (currentPageId two_pages)) two_pages = Some (k, q)
         \<and> page_close env_ok q)"
proof -
  have r: "registered (js_or (Some ''page_5'') (currentPageId two_pages)) two_pages = Some (''page_5'', 7)"
    by (simp add: registered_def js_or_def two_pages_def)
  have c: "\<not> page_close env_close_fails 7"
    by (simp add: env_close_fails_def env_ok_def)
  have f: "close_page env_close_fails None two_pages =
     (fst (close_page env_close_fails None two_pages), Failed CloseFailed)"
    by code_simp
  have o: "close_page env_ok None two_pages = (fst (close_page env_ok None two_pages), CloseOk)"
    by code_simp
  from close_page_atomic_on_error [of "Some ''page_5''" two_pages "''page_5''" 7 env_close_fails] r c
  have 1: "close_page env_close_fails (Some ''page_5'') two_pages = (two_pages, Failed CloseFailed)"
    by blast
  from close_page_atomic_on_error [of None two_pages _ _ env_close_fails
      "fst (close_page env_close_fails None two_pages)" "Failed CloseFailed"] f
  have 2: "fst (close_page env_close_fails None two_pages) = two_pages"
    by simp
  from close_page_atomic_on_error [of None two_pages _ _ env_ok
      "fst (close_page env_ok None two_pages)"] o
  have 3: "\<exists>k q. registered (js_or None (currentPageId two_pages)) two_pages = Some (k, q)
         \<and> page_close env_ok q"
    by blast
  from 1 2 3 show ?thesis by blast
qed

text \<open>
  C10: \<open>/console\<close> and \<open>/network\<close>, asked for a non-empty identifier that is not a
  key of the buffer map, answer with success, that identifier and the empty list; asked
  with no identifier (absent or the empty string, which JavaScript takes for absent)
  while \<open>currentPageId\<close> is null, they answer with success, a null identifier and the
  empty list; and they never change the state.
\<close>

theorem log_query_unknown_page_is_empty:
  "(pageId = Some i \<and> i \<noteq> [] \<and> map_of (consoleMessages s) i = None \<longrightarrow>
      get_console pageId s = (s, ConsoleOk (Some i) []))
   \<and> (pageId = Some i \<and> i \<noteq> [] \<and> map_of (networkRequests s) i = None \<longrightarrow>
      get_network pageId s = (s, NetworkOk (Some i) []))
   \<and> (\<not> truthy pageId \<and> currentPageId s = None \<longrightarrow>
      get_console pageId s = (s, ConsoleOk None []) \<and>
      get_network pageId s = (s, NetworkOk None []))
   \<and> fst (get_console pageId s) = s \<and> fst (get_network pageId s) = s"
  by (auto simp: get_console_def get_network_def js_or_def Let_def)

theorem log_query_unknown_page_is_empty_witness:
  "get_console (Some ''page_9'') two_pages = (two_pages, ConsoleOk (Some ''page_9'') [])
   \<and> get_network (Some ''page_9'') two_pages = (two_pages, NetworkOk (Some ''page_9'') [])
   \<and> get_console None initial_state = (initial_state, ConsoleOk None [])
   \<and> get_network None initial_state = (initial_state, NetworkOk None [])"
proof -
  have a: "map_of (consoleMessages two_pages) ''page_9'' = None"
    "map_of (networkRequests two_pages) ''page_9'' = None"
    by (simp_all add: two_pages_def)
  have b: "\<not> truthy None" "currentPageId initial_state = None"
    by (simp_all add: initial_state_def)
  from log_query_unknown_page_is_empty [of "Some ''page_9''" "''page_9''" two_pages] a
  have 1: "get_console (Some ''page_9'') two_pages = (two_pages, ConsoleOk (Some ''page_9'') [])"
    and 2: "get_network (Some ''page_9'') two_pages = (two_pages, NetworkOk (Some ''page_9'') [])"
    by simp_all
  from log_query_unknown_page_is_empty [of None _ initial_state] b
  have 3: "get_console None initial_state = (initial_state, ConsoleOk None [])"
    and 4: "get_network None initial_state = (initial_state, NetworkOk None [])"
    by simp_all
  from 1 2 3 4 show ?thesis by simp
qed


end
